theory Spec2Isabelle
  imports Main "HOL-Library.Sublist"
begin

section \<open>CPF validation of workout\_api (atleta/controller.py)\<close>

text \<open>
  The two module-level functions \<open>limpar_cpf\<close> and \<open>validar_cpf\<close> of
  \<^verbatim>\<open>workout_api/atleta/controller.py\<close> are embedded below. A Python \<open>str\<close> is
  modelled as a \<open>string\<close>; a character outside ASCII is the sequence of its UTF-8 bytes,
  all of them at least 128, so none of them is in the range \<open>0-9\<close> and the pattern
  \<open>[^0-9]\<close> removes every one of them, as Python removes the code point. Every operation of
  the source that can raise (indexing, \<open>int\<close>) returns a value of \<open>py_error + 'a\<close>.
\<close>

subsection \<open>The Python operations the source uses\<close>

datatype py_error = IndexError | ValueError

text \<open>A character class range \<open>a-b\<close> of \<open>re\<close> compares code points.\<close>

definition in_range :: "char \<Rightarrow> char \<Rightarrow> char \<Rightarrow> bool" where
  "in_range lo hi c = ((of_char lo :: nat) \<le> of_char c \<and> (of_char c :: nat) \<le> of_char hi)"

text \<open>The pattern \<open>[^0-9]\<close>: one character that is not in the range \<open>0-9\<close>.\<close>

definition not_0_9 :: "char \<Rightarrow> bool" where
  "not_0_9 c = (\<not> in_range (CHR ''0'') (CHR ''9'') c)"

text \<open>
  \<open>re.sub(pattern, repl, s)\<close> for a pattern that matches exactly one character: the
  string is scanned from the left, each matching character is replaced by \<open>repl\<close>, every
  other character is kept.
\<close>

fun re_sub :: "(char \<Rightarrow> bool) \<Rightarrow> string \<Rightarrow> string \<Rightarrow> string" where
  "re_sub p repl [] = []"
| "re_sub p repl (c # cs) = (if p c then repl @ re_sub p repl cs else c # re_sub p repl cs)"

text \<open>\<open>s[i]\<close>: a negative index counts from the end, an index out of range raises.\<close>

definition getitem :: "string \<Rightarrow> int \<Rightarrow> py_error + char" where
  "getitem s i =
     (let n = int (length s); j = (if i < 0 then n + i else i)
      in if 0 \<le> j \<and> j < n then Inr (s ! nat j) else Inl IndexError)"

text \<open>\<open>s[i:]\<close>: a slice never raises, its bound is clipped to the string.\<close>

definition slice_from :: "string \<Rightarrow> int \<Rightarrow> string" where
  "slice_from s i =
     (let n = int (length s); j = (if i < 0 then max 0 (n + i) else min i n)
      in drop (nat j) s)"

text \<open>\<open>s * n\<close>: the string repeated.\<close>

definition str_mul :: "string \<Rightarrow> int \<Rightarrow> string" where
  "str_mul s n = concat (replicate (nat n) s)"

text \<open>
  \<open>int(c)\<close> for a string of one character: the value of a decimal digit, \<open>ValueError\<close>
  for any other character. (Python also accepts a decimal digit of another script; such a
  character is several bytes here and never survives \<open>limpar_cpf\<close>.)
\<close>

definition int_of_char :: "char \<Rightarrow> py_error + int" where
  "int_of_char c =
     (if in_range (CHR ''0'') (CHR ''9'') c then Inr (int (of_char c) - 48) else Inl ValueError)"

text \<open>\<open>range(n)\<close>.\<close>

definition py_range :: "int \<Rightarrow> int list" where
  "py_range n = [0..n - 1]"

text \<open>
  \<open>sum(f(i) for i in idx)\<close>: the generator is consumed from the left, the running total
  starts at 0, and the first exception ends the call.
\<close>

fun sum_gen :: "(int \<Rightarrow> py_error + int) \<Rightarrow> int list \<Rightarrow> int \<Rightarrow> py_error + int" where
  "sum_gen f [] acc = Inr acc"
| "sum_gen f (i # idx) acc =
     (case f i of Inl e \<Rightarrow> Inl e | Inr v \<Rightarrow> sum_gen f idx (acc + v))"

text \<open>\<open>str(n)\<close> of an integer, as the f-string \<open>f"{n}"\<close> formats it: decimal, no padding.\<close>

definition digit_chr :: "nat \<Rightarrow> char" where
  "digit_chr d = char_of (48 + d)"

fun str_nat :: "nat \<Rightarrow> string" where
  "str_nat n = (if n < 10 then [digit_chr n] else str_nat (n div 10) @ [digit_chr (n mod 10)])"

declare str_nat.simps [simp del]

definition str_int :: "int \<Rightarrow> string" where
  "str_int i = (if i < 0 then CHR ''-'' # str_nat (nat (- i)) else str_nat (nat i))"

subsection \<open>limpar\_cpf and validar\_cpf\<close>

text \<open>\<^verbatim>\<open>return re.sub(r"[^0-9]", "", cpf)\<close>\<close>

definition limpar_cpf :: "string \<Rightarrow> string" where
  "limpar_cpf cpf = re_sub not_0_9 [] cpf"

text \<open>The generator element \<^verbatim>\<open>int(cpf[i]) * (w - i)\<close>, with \<open>w\<close> 10 or 11.\<close>

definition termo :: "string \<Rightarrow> int \<Rightarrow> int \<Rightarrow> py_error + int" where
  "termo cpf w i =
     (case getitem cpf i of
        Inl e \<Rightarrow> Inl e
      | Inr c \<Rightarrow> (case int_of_char c of Inl e \<Rightarrow> Inl e | Inr d \<Rightarrow> Inr (d * (w - i))))"

text \<open>\<^verbatim>\<open>soma = sum(int(cpf[i]) * (10 - i) for i in range(9))\<close> and the second one.\<close>

definition soma1 :: "string \<Rightarrow> py_error + int" where
  "soma1 cpf = sum_gen (termo cpf 10) (py_range 9) 0"

definition soma2 :: "string \<Rightarrow> py_error + int" where
  "soma2 cpf = sum_gen (termo cpf 11) (py_range 10) 0"

text \<open>\<^verbatim>\<open>resto = soma % 11; digito = 0 if resto < 2 else 11 - resto\<close>\<close>

definition digito :: "int \<Rightarrow> int" where
  "digito soma = (let resto = soma mod 11 in if resto < 2 then 0 else 11 - resto)"

definition validar_cpf :: "string \<Rightarrow> py_error + bool" where
  "validar_cpf raw =
     (let cpf = limpar_cpf raw in
      if length cpf \<noteq> 11 then Inr False
      else
        (case getitem cpf 0 of
           Inl e \<Rightarrow> Inl e
         | Inr c0 \<Rightarrow>
             if cpf = str_mul [c0] 11 then Inr False
             else
               (case soma1 cpf of
                  Inl e \<Rightarrow> Inl e
                | Inr s1 \<Rightarrow>
                    (let digito1 = digito s1 in
                       (case soma2 cpf of
                          Inl e \<Rightarrow> Inl e
                        | Inr s2 \<Rightarrow>
                            (let digito2 = digito s2 in
                               Inr (slice_from cpf (- 2) = str_int digito1 @ str_int digito2)))))))"

subsection \<open>Notions of the specification\<close>

text \<open>A decimal digit character, and the number it stands for.\<close>

definition is_digit :: "char \<Rightarrow> bool" where
  "is_digit c = (c \<in> set ''0123456789'')"

definition digit_val :: "char \<Rightarrow> int" where
  "digit_val c =
     (case map_of (zip ''0123456789'' [0, 1, 2, 3, 4, 5, 6, 7, 8, 9]) c of
        Some d \<Rightarrow> d
      | None \<Rightarrow> 0)"

definition digits :: "string \<Rightarrow> int list" where
  "digits cs = map digit_val cs"

text \<open>
  The two weighted sums as the specification writes them: \<open>sum(digit[i] * (10 - i))\<close> for
  \<open>i = 0..8\<close> and \<open>sum(digit[i] * (11 - i))\<close> for \<open>i = 0..9\<close>.
\<close>

definition spec_sum1 :: "int list \<Rightarrow> int" where
  "spec_sum1 d = sum_list (map (\<lambda>i. d ! i * (10 - int i)) [0..<9])"

definition spec_sum2 :: "int list \<Rightarrow> int" where
  "spec_sum2 d = sum_list (map (\<lambda>i. d ! i * (11 - int i)) [0..<10])"

text \<open>The check rule: 0 when the remainder modulo 11 is below 2, else 11 minus it.\<close>

definition check_digit :: "int \<Rightarrow> int" where
  "check_digit s = (let remainder = s mod 11 in if remainder < 2 then 0 else 11 - remainder)"

text \<open>All characters of a string are the same one.\<close>

definition all_identical :: "string \<Rightarrow> bool" where
  "all_identical cs = list_all (\<lambda>c. c = hd cs) cs"

text \<open>The decision in closed form, on a normalized identifier.\<close>

definition valid_digits :: "string \<Rightarrow> bool" where
  "valid_digits cs =
     (length cs = 11 \<and> cs \<noteq> replicate 11 (cs ! 0) \<and>
      digits cs ! 9 = check_digit (spec_sum1 (digits cs)) \<and>
      digits cs ! 10 = check_digit (spec_sum2 (digits cs)))"

text \<open>
  The validator as the specification's steps 1 to 5 prescribe it: the second sum runs over
  the first nine digits followed by the just-computed \<open>check1\<close>, not over the tenth digit
  of the input.
\<close>

definition spec_is_valid :: "string \<Rightarrow> bool" where
  "spec_is_valid cs =
     (if length cs \<noteq> 11 then False
      else if all_identical cs then False
      else
        (let d = digits cs;
             check1 = check_digit (spec_sum1 d);
             check2 = check_digit (spec_sum2 (take 9 d @ [check1]))
         in d ! 9 = check1 \<and> d ! 10 = check2))"

text \<open>
  Position \<open>p\<close> of an identifier is sensitive when replacing the digit there by any of the
  other nine digits gives an identifier that \<open>validar_cpf\<close> rejects.
\<close>

definition sensitive :: "string \<Rightarrow> nat \<Rightarrow> bool" where
  "sensitive x p =
     list_all (\<lambda>v. validar_cpf (x[p := v]) = Inr False)
       (filter (\<lambda>v. v \<noteq> x ! p) ''0123456789'')"

definition sensitive_positions :: "string \<Rightarrow> nat list" where
  "sensitive_positions x = filter (sensitive x) [0..<11]"

text \<open>A malformed input: a string that holds a character other than a decimal digit.\<close>

definition malformed :: "string \<Rightarrow> bool" where
  "malformed x = (\<not> list_all is_digit x)"

subsection \<open>Digit characters\<close>

lemma nat_48_57: "48 \<le> (n::nat) \<Longrightarrow> n \<le> 57 \<Longrightarrow> n \<in> {48, 49, 50, 51, 52, 53, 54, 55, 56, 57}"
  by simp arith

lemma of_char_digit_cases:
  "(of_char c :: nat) \<in> {48, 49, 50, 51, 52, 53, 54, 55, 56, 57} \<Longrightarrow> is_digit c"
proof -
  assume a: "(of_char c :: nat) \<in> {48, 49, 50, 51, 52, 53, 54, 55, 56, 57}"
  have "(of_char c :: nat) \<in> of_char ` set ''0123456789''"
    using a by simp
  then obtain k where "k \<in> set ''0123456789''" and "(of_char c :: nat) = of_char k"
    by blast
  then show ?thesis
    unfolding is_digit_def by (simp only: of_char_eq_iff)
qed

lemma in_range_is_digit: "in_range (CHR ''0'') (CHR ''9'') c = is_digit c"
proof
  assume "in_range (CHR ''0'') (CHR ''9'') c"
  then have "48 \<le> (of_char c :: nat)" "(of_char c :: nat) \<le> 57"
    by (simp_all add: in_range_def)
  then have "(of_char c :: nat) \<in> {48, 49, 50, 51, 52, 53, 54, 55, 56, 57}"
    by (rule nat_48_57)
  then show "is_digit c"
    by (rule of_char_digit_cases)
next
  assume "is_digit c"
  then show "in_range (CHR ''0'') (CHR ''9'') c"
    by (auto simp add: is_digit_def in_range_def)
qed

lemma int_of_char_digit: "is_digit c \<Longrightarrow> int_of_char c = Inr (digit_val c)"
  unfolding int_of_char_def in_range_is_digit
  by (auto simp add: is_digit_def digit_val_def)

lemma int_of_char_other: "\<not> is_digit c \<Longrightarrow> int_of_char c = Inl ValueError"
  unfolding int_of_char_def in_range_is_digit by simp

lemma digit_val_bounds: "is_digit c \<Longrightarrow> 0 \<le> digit_val c \<and> digit_val c \<le> 9"
  by (auto simp add: is_digit_def digit_val_def)

lemma digit_chr_table:
  "digit_chr 0 = CHR ''0''" "digit_chr 1 = CHR ''1''" "digit_chr 2 = CHR ''2''"
  "digit_chr 3 = CHR ''3''" "digit_chr 4 = CHR ''4''" "digit_chr 5 = CHR ''5''"
  "digit_chr 6 = CHR ''6''" "digit_chr 7 = CHR ''7''" "digit_chr 8 = CHR ''8''"
  "digit_chr 9 = CHR ''9''" "digit_chr (Suc 0) = CHR ''1''"
  by code_simp+

lemma int_0_9_cases:
  "0 \<le> (d::int) \<Longrightarrow> d \<le> 9 \<Longrightarrow>
   d = 0 \<or> d = 1 \<or> d = 2 \<or> d = 3 \<or> d = 4 \<or> d = 5 \<or> d = 6 \<or> d = 7 \<or> d = 8 \<or> d = 9"
  by arith

lemma digit_val_chr:
  assumes "0 \<le> d" "d \<le> 9"
  shows "is_digit (digit_chr (nat d)) \<and> digit_val (digit_chr (nat d)) = d"
  using int_0_9_cases [OF assms]
  by (elim disjE) (simp_all add: digit_chr_table is_digit_def digit_val_def)

lemma digit_val_inj: "is_digit a \<Longrightarrow> is_digit b \<Longrightarrow> digit_val a = digit_val b \<Longrightarrow> a = b"
  unfolding is_digit_def
  by (simp) (elim disjE; simp add: digit_val_def)

lemma digit_chr_eq:
  "is_digit c \<Longrightarrow> 0 \<le> d \<Longrightarrow> d \<le> 9 \<Longrightarrow> (c = digit_chr (nat d)) = (digit_val c = d)"
  using digit_val_chr [of d] digit_val_inj [of c "digit_chr (nat d)"] by auto

subsection \<open>Normalization is a filter\<close>

lemma limpar_cpf_filter: "limpar_cpf x = filter is_digit x"
  unfolding limpar_cpf_def
  by (induction x) (simp_all add: not_0_9_def in_range_is_digit)

lemma limpar_cpf_digits: "c \<in> set (limpar_cpf x) \<Longrightarrow> is_digit c"
  by (simp add: limpar_cpf_filter)

lemma limpar_cpf_fixed: "(\<And>c. c \<in> set x \<Longrightarrow> is_digit c) \<Longrightarrow> limpar_cpf x = x"
  by (simp add: limpar_cpf_filter)

lemma limpar_cpf_idem: "limpar_cpf (limpar_cpf x) = limpar_cpf x"
  by (simp add: limpar_cpf_filter)

subsection \<open>The two sums and the final comparison\<close>

lemma range_9: "py_range 9 = [0, 1, 2, 3, 4, 5, 6, 7, 8]"
  by code_simp

lemma range_10: "py_range 10 = [0, 1, 2, 3, 4, 5, 6, 7, 8, 9]"
  by code_simp

lemma upt_9: "[0..<9] = [0, 1, 2, 3, 4, 5, 6, 7, 8]"
  by code_simp

lemma upt_10: "[0..<10] = [0, 1, 2, 3, 4, 5, 6, 7, 8, 9]"
  by code_simp

lemma upt_11: "[0..<11] = [0, 1, 2, 3, 4, 5, 6, 7, 8, 9, 10]"
  by code_simp

lemma length_11E:
  assumes "length cs = 11"
  obtains c0 c1 c2 c3 c4 c5 c6 c7 c8 c9 c10
  where "cs = [c0, c1, c2, c3, c4, c5, c6, c7, c8, c9, c10]"
  using assms by (auto simp add: numeral_eq_Suc length_Suc_conv)

lemma digito_check_digit: "digito s = check_digit s"
  by (simp add: digito_def check_digit_def)

lemma digito_bounds: "0 \<le> digito s \<and> digito s \<le> 9"
proof -
  have "0 \<le> s mod 11" "s mod 11 < 11" by simp_all
  then show ?thesis
    unfolding digito_def Let_def by (simp split: if_splits) arith
qed

lemma str_int_digit: "0 \<le> d \<Longrightarrow> d \<le> 9 \<Longrightarrow> str_int d = [digit_chr (nat d)]"
  by (simp add: str_int_def str_nat.simps)

lemma termo_ok:
  "0 \<le> i \<Longrightarrow> i < int (length cs) \<Longrightarrow> is_digit (cs ! nat i) \<Longrightarrow>
   termo cs w i = Inr (digit_val (cs ! nat i) * (w - i))"
  by (simp add: termo_def getitem_def int_of_char_digit)

lemma sum_gen_ok:
  "(\<And>i. i \<in> set idx \<Longrightarrow> f i = Inr (g i)) \<Longrightarrow>
   sum_gen f idx acc = Inr (acc + sum_list (map g idx))"
  by (induction idx arbitrary: acc) (simp_all add: add.assoc)

lemma soma1_ok:
  assumes len: "length cs = 11" and dig: "\<And>c. c \<in> set cs \<Longrightarrow> is_digit c"
  shows "soma1 cs = Inr (spec_sum1 (digits cs))"
proof -
  have t: "termo cs 10 i = Inr (digit_val (cs ! nat i) * (10 - i))"
    if "i \<in> set (py_range 9)" for i
  proof -
    from that have "0 \<le> i" "i < int (length cs)" by (auto simp add: range_9 len)
    moreover from this have "is_digit (cs ! nat i)" by (intro dig nth_mem) simp
    ultimately show ?thesis by (rule termo_ok)
  qed
  have "soma1 cs = Inr (0 + sum_list (map (\<lambda>i. digit_val (cs ! nat i) * (10 - i)) (py_range 9)))"
    unfolding soma1_def by (rule sum_gen_ok) (rule t)
  also have "\<dots> = Inr (spec_sum1 (digits cs))"
    by (simp add: range_9 spec_sum1_def upt_9 digits_def len)
  finally show ?thesis .
qed

lemma soma2_ok:
  assumes len: "length cs = 11" and dig: "\<And>c. c \<in> set cs \<Longrightarrow> is_digit c"
  shows "soma2 cs = Inr (spec_sum2 (digits cs))"
proof -
  have t: "termo cs 11 i = Inr (digit_val (cs ! nat i) * (11 - i))"
    if "i \<in> set (py_range 10)" for i
  proof -
    from that have "0 \<le> i" "i < int (length cs)" by (auto simp add: range_10 len)
    moreover from this have "is_digit (cs ! nat i)" by (intro dig nth_mem) simp
    ultimately show ?thesis by (rule termo_ok)
  qed
  have "soma2 cs = Inr (0 + sum_list (map (\<lambda>i. digit_val (cs ! nat i) * (11 - i)) (py_range 10)))"
    unfolding soma2_def by (rule sum_gen_ok) (rule t)
  also have "\<dots> = Inr (spec_sum2 (digits cs))"
    by (simp add: range_10 spec_sum2_def upt_10 digits_def len)
  finally show ?thesis .
qed

lemma str_mul_single: "str_mul [c] 11 = replicate 11 c"
  by (simp add: str_mul_def)

lemma slice_last_two: "length cs = 11 \<Longrightarrow> slice_from cs (- 2) = [cs ! 9, cs ! 10]"
  by (erule length_11E) (simp add: slice_from_def)

lemma format_compare:
  assumes "length cs = 11" "is_digit (cs ! 9)" "is_digit (cs ! 10)"
  shows "(slice_from cs (- 2) = str_int (digito s1) @ str_int (digito s2)) =
         (digit_val (cs ! 9) = digito s1 \<and> digit_val (cs ! 10) = digito s2)"
  using assms digito_bounds [of s1] digito_bounds [of s2]
  by (simp add: slice_last_two str_int_digit digit_chr_eq)

lemma format_compare_check:
  assumes "length cs = 11" "is_digit (cs ! 9)" "is_digit (cs ! 10)"
  shows "(slice_from cs (- 2) = str_int (digito s1) @ str_int (digito s2)) =
         (digit_val (cs ! 9) = check_digit s1 \<and> digit_val (cs ! 10) = check_digit s2)"
  unfolding format_compare [OF assms] by (simp add: digito_check_digit)

lemma all_identical_replicate:
  "length cs = 11 \<Longrightarrow> all_identical cs = (cs = replicate 11 (cs ! 0))"
  by (erule length_11E) (auto simp add: all_identical_def numeral_eq_Suc)

subsection \<open>The decision of validar\_cpf in closed form\<close>

lemma validar_cpf_closed: "validar_cpf x = Inr (valid_digits (limpar_cpf x))"
proof (cases "length (limpar_cpf x) = 11")
  case False
  then show ?thesis by (simp add: validar_cpf_def valid_digits_def)
next
  case len: True
  let ?cs = "limpar_cpf x"
  have dig: "\<And>c. c \<in> set ?cs \<Longrightarrow> is_digit c" by (rule limpar_cpf_digits)
  have g: "getitem ?cs 0 = Inr (?cs ! 0)" by (simp add: getitem_def len)
  have d9: "is_digit (?cs ! 9)" and d10: "is_digit (?cs ! 10)"
    by (rule dig, rule nth_mem, simp add: len)+
  have dv: "digits ?cs ! 9 = digit_val (?cs ! 9)" "digits ?cs ! 10 = digit_val (?cs ! 10)"
    by (simp_all add: digits_def len)
  show ?thesis
    unfolding validar_cpf_def Let_def
    by (simp add: len g str_mul_single soma1_ok [OF len dig] soma2_ok [OF len dig]
        format_compare_check [OF len d9 d10] valid_digits_def dv)
qed

lemma validar_cpf_normalized:
  "(\<And>c. c \<in> set x \<Longrightarrow> is_digit c) \<Longrightarrow> validar_cpf x = Inr (valid_digits x)"
  by (simp add: validar_cpf_closed limpar_cpf_fixed)

lemma spec_sum2_substituted:
  "length d = 11 \<Longrightarrow> d ! 9 = k \<Longrightarrow> spec_sum2 (take 9 d @ [k]) = spec_sum2 d"
  by (simp add: spec_sum2_def upt_10 nth_append)

subsection \<open>Claims about limpar\_cpf\<close>

text \<open>
  Claim C7. \<open>limpar_cpf\<close> maps any string, the empty one included, to exactly the
  subsequence of its decimal-digit characters in their original order and discards every
  other character; so its output holds digits only and is never longer than its input.
\<close>

theorem C7_limpar_cpf_digit_subsequence:
  "limpar_cpf x = filter is_digit x \<and> subseq (limpar_cpf x) x \<and>
   list_all is_digit (limpar_cpf x) \<and> length (limpar_cpf x) \<le> length x \<and>
   limpar_cpf [] = []"
proof -
  have f: "limpar_cpf x = filter is_digit x" by (rule limpar_cpf_filter)
  have "subseq (filter is_digit x) x" by simp
  moreover have "list_all is_digit (filter is_digit x)" by (simp add: list_all_iff)
  moreover have "length (filter is_digit x) \<le> length x" by simp
  moreover have "limpar_cpf [] = []" by (simp add: limpar_cpf_def)
  ultimately show ?thesis using f by simp
qed

theorem C7_limpar_cpf_witness:
  "limpar_cpf ''a1.b2-c3 '' = ''123'' \<and> subseq ''123'' ''a1.b2-c3 '' \<and>
   length (limpar_cpf ''a1.b2-c3 '') \<le> length ''a1.b2-c3 ''"
  using C7_limpar_cpf_digit_subsequence [of "''a1.b2-c3 ''"]
  by (simp add: is_digit_def)

subsection \<open>Concrete vectors\<close>

text \<open>
  Claim C8. On the concrete vectors: \<open>limpar_cpf "529.982.247-25" = "52998224725"\<close> and
  \<open>validar_cpf\<close> of it is true; \<open>validar_cpf "111.111.111-11"\<close> is false;
  \<open>limpar_cpf "123.456.789-00" = "12345678900"\<close> and \<open>validar_cpf\<close> of it is false.
\<close>

theorem C8_concrete_vectors:
  "limpar_cpf ''529.982.247-25'' = ''52998224725'' \<and>
   validar_cpf ''52998224725'' = Inr True \<and>
   validar_cpf ''529.982.247-25'' = Inr True \<and>
   validar_cpf ''111.111.111-11'' = Inr False \<and>
   limpar_cpf ''123.456.789-00'' = ''12345678900'' \<and>
   validar_cpf ''12345678900'' = Inr False \<and>
   validar_cpf ''123.456.789-00'' = Inr False"
  by code_simp

subsection \<open>Claims about validar\_cpf\<close>

text \<open>
  Claim C1. For every input string whose normalized form has exactly 11 digits
  \<open>d0..d10\<close> that are not all identical, \<open>validar_cpf\<close> returns true if and only if
  \<open>d9\<close> equals \<open>check1\<close> and \<open>d10\<close> equals \<open>check2\<close>, where \<open>check1\<close> comes from
  \<open>sum(d_i * (10 - i))\<close> for \<open>i = 0..8\<close> and \<open>check2\<close> from the sum over the first ten
  digits with weights \<open>11 - i\<close>, each check digit being 0 when the sum modulo 11 is below 2
  and 11 minus that remainder otherwise.
\<close>

theorem C1_checksum_decision:
  assumes "cs = limpar_cpf x" "length cs = 11" "\<not> all_identical cs"
  shows "validar_cpf x =
           Inr (digits cs ! 9 = check_digit (spec_sum1 (digits cs)) \<and>
                digits cs ! 10 = check_digit (spec_sum2 (digits cs)))"
proof -
  from assms(2,3) have "cs \<noteq> replicate 11 (cs ! 0)"
    by (simp add: all_identical_replicate)
  with assms(1,2) show ?thesis
    by (simp add: validar_cpf_closed valid_digits_def)
qed

theorem C1_checksum_decision_witness:
  "''52998224725'' = limpar_cpf ''529.982.247-25'' \<and> length ''52998224725'' = 11 \<and>
   \<not> all_identical ''52998224725'' \<and>
   spec_sum1 (digits ''52998224725'') = 295 \<and> spec_sum2 (digits ''52998224725'') = 347 \<and>
   check_digit 295 = 2 \<and> check_digit 347 = 5 \<and>
   validar_cpf ''529.982.247-25'' = Inr True"
proof -
  have a: "''52998224725'' = limpar_cpf ''529.982.247-25''" by code_simp
  have b: "length ''52998224725'' = 11" by simp
  have c: "\<not> all_identical ''52998224725''" by (simp add: all_identical_def)
  have s: "spec_sum1 (digits ''52998224725'') = 295" "spec_sum2 (digits ''52998224725'') = 347"
    by code_simp+
  have k: "check_digit 295 = 2" "check_digit 347 = 5"
    by (simp_all add: check_digit_def)
  have d: "digits ''52998224725'' ! 9 = 2" "digits ''52998224725'' ! 10 = 5"
    by code_simp+
  show ?thesis
    using C1_checksum_decision [OF a b c] a b c s k d by simp
qed

text \<open>
  Claim C2. For every normalized 11-digit input, computing the second verification digit
  over the first ten digits of the input, as the code does, gives the same validity as
  computing it over the first nine digits with the just-computed \<open>check1\<close> in the place of
  the tenth, as step 4 of the specification prescribes: the two algorithms decide alike.
\<close>

theorem C2_code_refines_spec_algorithm:
  assumes "length x = 11" "list_all is_digit x"
  shows "validar_cpf x = Inr (spec_is_valid x)"
proof -
  have dig: "\<And>c. c \<in> set x \<Longrightarrow> is_digit c"
    using assms(2) by (simp add: list_all_iff)
  have len: "length (digits x) = 11" using assms(1) by (simp add: digits_def)
  have "valid_digits x = spec_is_valid x"
  proof (cases "digits x ! 9 = check_digit (spec_sum1 (digits x))")
    case True
    then have "spec_sum2 (take 9 (digits x) @ [check_digit (spec_sum1 (digits x))]) = spec_sum2 (digits x)"
      by (rule spec_sum2_substituted [OF len])
    then show ?thesis
      using assms(1)
      by (simp add: valid_digits_def spec_is_valid_def Let_def all_identical_replicate)
  next
    case False
    then show ?thesis
      by (simp add: valid_digits_def spec_is_valid_def Let_def)
  qed
  then show ?thesis by (simp add: validar_cpf_normalized [OF dig])
qed

theorem C2_code_refines_spec_witness:
  "length ''52998224735'' = 11 \<and> list_all is_digit ''52998224735'' \<and>
   spec_sum2 (digits ''52998224735'') \<noteq>
     spec_sum2 (take 9 (digits ''52998224735'') @ [check_digit (spec_sum1 (digits ''52998224735''))]) \<and>
   spec_is_valid ''52998224735'' = False \<and>
   validar_cpf ''52998224735'' = Inr False \<and>
   spec_is_valid ''52998224725'' = True \<and>
   validar_cpf ''52998224725'' = Inr True"
proof -
  have a: "length ''52998224735'' = 11" "length ''52998224725'' = 11" by simp_all
  have b: "list_all is_digit ''52998224735''" "list_all is_digit ''52998224725''"
    by (simp_all add: is_digit_def)
  have c: "spec_sum2 (digits ''52998224735'') \<noteq>
     spec_sum2 (take 9 (digits ''52998224735'') @ [check_digit (spec_sum1 (digits ''52998224735''))])"
    by code_simp
  have d: "spec_is_valid ''52998224735'' = False" "spec_is_valid ''52998224725'' = True"
    by code_simp+
  show ?thesis
    using a b c d C2_code_refines_spec_algorithm [OF a(1) b(1)]
      C2_code_refines_spec_algorithm [OF a(2) b(2)] by simp
qed

text \<open>
  Claim C4. \<open>validar_cpf\<close> normalizes internally: \<open>validar_cpf x\<close> equals
  \<open>validar_cpf (limpar_cpf x)\<close> for every string, and the formatted identifier
  \<open>"123.456.789-09"\<close> is judged as its digits-only projection.
\<close>

theorem C4_normalizes_internally:
  "validar_cpf x = validar_cpf (limpar_cpf x) \<and>
   validar_cpf ''123.456.789-09'' = validar_cpf ''12345678909''"
proof -
  have "validar_cpf x = validar_cpf (limpar_cpf x)"
    by (simp add: validar_cpf_def limpar_cpf_idem)
  moreover have "validar_cpf ''123.456.789-09'' = validar_cpf ''12345678909''"
    by code_simp
  ultimately show ?thesis by simp
qed

text \<open>
  Claim C5. \<open>validar_cpf x\<close> is false whenever the length of \<open>limpar_cpf x\<close> is not 11;
  the empty string and any purely alphabetic string are rejected. A letter is not a decimal
  digit, so the last part is stated for every string without a digit character, whose
  normalized form is empty.
\<close>

theorem C5_wrong_length_rejected:
  "(length (limpar_cpf x) \<noteq> 11 \<longrightarrow> validar_cpf x = Inr False) \<and>
   validar_cpf [] = Inr False \<and>
   (list_all (\<lambda>c. \<not> is_digit c) y \<longrightarrow> limpar_cpf y = [] \<and> validar_cpf y = Inr False)"
proof -
  have a: "validar_cpf z = Inr False" if "length (limpar_cpf z) \<noteq> 11" for z
    using that by (simp add: validar_cpf_def)
  have e: "limpar_cpf [] = []" by (simp add: limpar_cpf_def)
  have n: "limpar_cpf y = []" if "list_all (\<lambda>c. \<not> is_digit c) y"
    using that by (simp add: limpar_cpf_filter list_all_iff)
  show ?thesis using a [of x] a [of "[]"] a [of y] e n by auto
qed

theorem C5_wrong_length_witness:
  "length (limpar_cpf ''123.456.789'') \<noteq> 11 \<and> validar_cpf ''123.456.789'' = Inr False \<and>
   list_all (\<lambda>c. \<not> is_digit c) ''abcXYZ'' \<and> limpar_cpf ''abcXYZ'' = [] \<and>
   validar_cpf ''abcXYZ'' = Inr False"
proof -
  have l: "length (limpar_cpf ''123.456.789'') \<noteq> 11" by code_simp
  have n: "list_all (\<lambda>c. \<not> is_digit c) ''abcXYZ''" by (simp add: is_digit_def)
  show ?thesis
    using l n C5_wrong_length_rejected [of "''123.456.789''" "''abcXYZ''"] by simp
qed

text \<open>
  Claim C6. For every 11-character string whose 11 digits are all identical, such as
  \<open>"00000000000"\<close> or \<open>"11111111111"\<close>, \<open>validar_cpf\<close> returns false, whether or not
  the check digits would match. (They do match for \<open>"11111111111"\<close>, as the second theorem
  shows on the way.)
\<close>

theorem C6_all_identical_rejected:
  assumes "length x = 11" "list_all is_digit x" "all_identical x"
  shows "validar_cpf x = Inr False"
proof -
  have dig: "\<And>c. c \<in> set x \<Longrightarrow> is_digit c"
    using assms(2) by (simp add: list_all_iff)
  have "x = replicate 11 (x ! 0)"
    using assms(1,3) by (simp add: all_identical_replicate)
  then have "\<not> valid_digits x" by (simp add: valid_digits_def)
  then show ?thesis by (simp add: validar_cpf_normalized [OF dig])
qed

theorem C6_all_identical_witness:
  "length ''11111111111'' = 11 \<and> list_all is_digit ''11111111111'' \<and>
   all_identical ''11111111111'' \<and>
   digits ''11111111111'' ! 9 = check_digit (spec_sum1 (digits ''11111111111'')) \<and>
   digits ''11111111111'' ! 10 = check_digit (spec_sum2 (digits ''11111111111'')) \<and>
   validar_cpf ''11111111111'' = Inr False"
proof -
  have a: "length ''11111111111'' = 11" by simp
  have b: "list_all is_digit ''11111111111''" by (simp add: is_digit_def)
  have c: "all_identical ''11111111111''" by (simp add: all_identical_def)
  have d: "digits ''11111111111'' ! 9 = check_digit (spec_sum1 (digits ''11111111111''))"
      "digits ''11111111111'' ! 10 = check_digit (spec_sum2 (digits ''11111111111''))"
    by code_simp+
  show ?thesis using a b c d C6_all_identical_rejected [OF a b c] by simp
qed

text \<open>
  Claim C9, as amended. \<open>validar_cpf\<close> and \<open>limpar_cpf\<close> are total and never raise: the
  result is always a boolean. An input whose digits are too few, too many or fail a check
  digit yields false. A malformed input is judged as the string of its digits: it yields
  false unless those digits are an accepted CPF, and always when it has at most 11
  characters. Every character that \<open>validar_cpf\<close> indexes and converts is a decimal digit,
  by the normalization, so neither the index error nor the conversion error can occur.
  (\<open>limpar_cpf\<close> has no failing operation; its model is a total function into strings.)
  As the claim was stated, with every malformed input yielding false, it fails:
  \<open>"529x982y247z25"\<close> and \<open>"-52998224725"\<close> are accepted.
\<close>

theorem C9_total_never_raises:
  "(validar_cpf x = Inr True \<or> validar_cpf x = Inr False) \<and>
   validar_cpf x \<noteq> Inl ValueError \<and> validar_cpf x \<noteq> Inl IndexError \<and>
   (length (limpar_cpf x) < 11 \<longrightarrow> validar_cpf x = Inr False) \<and>
   (length (limpar_cpf x) > 11 \<longrightarrow> validar_cpf x = Inr False) \<and>
   (digits (limpar_cpf x) ! 9 \<noteq> check_digit (spec_sum1 (digits (limpar_cpf x))) \<longrightarrow>
      validar_cpf x = Inr False) \<and>
   (digits (limpar_cpf x) ! 10 \<noteq> check_digit (spec_sum2 (digits (limpar_cpf x))) \<longrightarrow>
      validar_cpf x = Inr False) \<and>
   validar_cpf x = validar_cpf (limpar_cpf x) \<and>
   (malformed x \<and> validar_cpf (limpar_cpf x) \<noteq> Inr True \<longrightarrow> validar_cpf x = Inr False) \<and>
   (malformed x \<and> length x \<le> 11 \<longrightarrow> validar_cpf x = Inr False) \<and>
   (length (limpar_cpf x) = 11 \<longrightarrow>
      (\<forall>i. 0 \<le> i \<and> i < 10 \<longrightarrow>
         (\<exists>c d. getitem (limpar_cpf x) i = Inr c \<and> is_digit c \<and> int_of_char c = Inr d)) \<and>
      (\<exists>s1 s2. soma1 (limpar_cpf x) = Inr s1 \<and> soma2 (limpar_cpf x) = Inr s2))"
proof -
  have v: "validar_cpf x = Inr (valid_digits (limpar_cpf x))" by (rule validar_cpf_closed)
  have i: "\<exists>c d. getitem (limpar_cpf x) i = Inr c \<and> is_digit c \<and> int_of_char c = Inr d"
    if "length (limpar_cpf x) = 11" "0 \<le> i \<and> i < 10" for i
  proof -
    have "nat i < length (limpar_cpf x)" using that by arith
    then have "limpar_cpf x ! nat i \<in> set (limpar_cpf x)" by (rule nth_mem)
    then have "is_digit (limpar_cpf x ! nat i)" by (rule limpar_cpf_digits)
    then show ?thesis using that by (simp add: getitem_def int_of_char_digit)
  qed
  have s: "\<exists>s1 s2. soma1 (limpar_cpf x) = Inr s1 \<and> soma2 (limpar_cpf x) = Inr s2"
    if "length (limpar_cpf x) = 11"
    using soma1_ok [OF that limpar_cpf_digits] soma2_ok [OF that limpar_cpf_digits] by simp
  have r: "validar_cpf x = Inr True \<or> validar_cpf x = Inr False"
    "validar_cpf x \<noteq> Inl ValueError" "validar_cpf x \<noteq> Inl IndexError"
    unfolding v by simp_all
  have f: "length (limpar_cpf x) < 11 \<longrightarrow> validar_cpf x = Inr False"
    "length (limpar_cpf x) > 11 \<longrightarrow> validar_cpf x = Inr False"
    "digits (limpar_cpf x) ! 9 \<noteq> check_digit (spec_sum1 (digits (limpar_cpf x))) \<longrightarrow>
      validar_cpf x = Inr False"
    "digits (limpar_cpf x) ! 10 \<noteq> check_digit (spec_sum2 (digits (limpar_cpf x))) \<longrightarrow>
      validar_cpf x = Inr False"
    unfolding v by (simp_all add: valid_digits_def)
  have e: "validar_cpf x = validar_cpf (limpar_cpf x)"
    by (simp add: validar_cpf_def limpar_cpf_idem)
  have m: "malformed x \<and> validar_cpf (limpar_cpf x) \<noteq> Inr True \<longrightarrow> validar_cpf x = Inr False"
    using e r(1) by auto
  have l: "validar_cpf x = Inr False" if "malformed x \<and> length x \<le> 11"
  proof -
    from that obtain c where "c \<in> set x" "\<not> is_digit c"
      by (auto simp add: malformed_def list_all_iff)
    then have "length (filter is_digit x) < length x" by (rule length_filter_less)
    with that have "length (limpar_cpf x) < 11" by (simp add: limpar_cpf_filter)
    with f(1) show ?thesis by simp
  qed
  show ?thesis using r f e m l i s by blast
qed

theorem C9_total_never_raises_witness:
  "validar_cpf ''12a'' = Inr False \<and> validar_cpf ''123456789012345'' = Inr False \<and>
   validar_cpf ''52998224726'' = Inr False \<and> validar_cpf ''x'' \<noteq> Inl ValueError \<and>
   malformed ''529.982.247-26'' \<and> validar_cpf ''52998224726'' \<noteq> Inr True \<and>
   validar_cpf ''529.982.247-26'' = Inr False \<and>
   malformed ''5299822472x'' \<and> length ''5299822472x'' \<le> 11 \<and>
   validar_cpf ''5299822472x'' = Inr False \<and>
   length (limpar_cpf ''52998224725'') = 11 \<and>
   (\<exists>c d. getitem (limpar_cpf ''52998224725'') 9 = Inr c \<and> is_digit c \<and> int_of_char c = Inr d)"
proof -
  have a: "length (limpar_cpf ''12a'') < 11" "length (limpar_cpf ''123456789012345'') > 11"
    "digits (limpar_cpf ''52998224726'') ! 10 \<noteq>
       check_digit (spec_sum2 (digits (limpar_cpf ''52998224726'')))"
    "length (limpar_cpf ''52998224725'') = 11"
    by code_simp+
  have b: "malformed ''529.982.247-26''" "malformed ''5299822472x''"
    by (simp_all add: malformed_def is_digit_def)
  have c: "limpar_cpf ''529.982.247-26'' = ''52998224726''" by code_simp
  have d: "length ''5299822472x'' \<le> 11" by simp
  have t1: "validar_cpf ''12a'' = Inr False"
    using C9_total_never_raises [of "''12a''", THEN conjunct2, THEN conjunct2, THEN conjunct2, THEN conjunct1, rule_format, OF a(1)] .
  have t2: "validar_cpf ''123456789012345'' = Inr False"
    using C9_total_never_raises [of "''123456789012345''", THEN conjunct2, THEN conjunct2, THEN conjunct2, THEN conjunct2, THEN conjunct1, rule_format, OF a(2)] .
  have t3: "validar_cpf ''52998224726'' = Inr False"
    using C9_total_never_raises [of "''52998224726''", THEN conjunct2, THEN conjunct2, THEN conjunct2, THEN conjunct2, THEN conjunct2, THEN conjunct2, THEN conjunct1, rule_format, OF a(3)] .
  have t4: "validar_cpf ''x'' \<noteq> Inl ValueError"
    using C9_total_never_raises [of "''x''", THEN conjunct2, THEN conjunct1] .
  have n: "malformed ''529.982.247-26'' \<and> validar_cpf (limpar_cpf ''529.982.247-26'') \<noteq> Inr True"
    using b(1) c t3 by simp
  have t5: "validar_cpf ''529.982.247-26'' = Inr False"
    using C9_total_never_raises [of "''529.982.247-26''", THEN conjunct2, THEN conjunct2, THEN conjunct2, THEN conjunct2, THEN conjunct2, THEN conjunct2, THEN conjunct2, THEN conjunct2, THEN conjunct1, rule_format, OF n] .
  have t6: "validar_cpf ''5299822472x'' = Inr False"
    using C9_total_never_raises [of "''5299822472x''", THEN conjunct2, THEN conjunct2, THEN conjunct2, THEN conjunct2, THEN conjunct2, THEN conjunct2, THEN conjunct2, THEN conjunct2, THEN conjunct2, THEN conjunct1, rule_format, OF conjI [OF b(2) d]] .
  have t7: "\<exists>c d. getitem (limpar_cpf ''52998224725'') 9 = Inr c \<and> is_digit c \<and>
              int_of_char c = Inr d"
    using C9_total_never_raises [of "''52998224725''", THEN conjunct2, THEN conjunct2, THEN conjunct2, THEN conjunct2, THEN conjunct2, THEN conjunct2, THEN conjunct2, THEN conjunct2, THEN conjunct2, THEN conjunct2, rule_format, OF a(4), THEN conjunct1,
      rule_format, of 9] by simp
  have t8: "validar_cpf ''52998224726'' \<noteq> Inr True" using t3 by simp
  show ?thesis using a(4) b d t1 t2 t3 t4 t5 t6 t7 t8 by simp
qed

theorem C9_malformed_accepted_counterexample:
  "malformed ''529x982y247z25'' \<and> validar_cpf ''529x982y247z25'' = Inr True \<and>
   malformed ''-52998224725'' \<and> validar_cpf ''-52998224725'' = Inr True"
proof -
  have m: "malformed ''529x982y247z25''" "malformed ''-52998224725''"
    by (simp_all add: malformed_def is_digit_def)
  have v: "validar_cpf ''529x982y247z25'' = Inr True" "validar_cpf ''-52998224725'' = Inr True"
    by code_simp+
  show ?thesis using m v by simp
qed

text \<open>
  Claim C10. For every input that reaches the checksum computation (11 digits, not all
  identical) \<open>digito1\<close> and \<open>digito2\<close> lie in \<open>0..9\<close>, so the formatted string
  \<open>f"{digito1}{digito2}"\<close> has exactly two characters and comparing it with the last two
  characters of the input is the digit-wise equality of the two check digits.
\<close>

theorem C10_check_digits_single_char:
  assumes "cs = limpar_cpf x" "length cs = 11" "\<not> all_identical cs"
  shows "\<exists>s1 s2. soma1 cs = Inr s1 \<and> soma2 cs = Inr s2 \<and>
           0 \<le> digito s1 \<and> digito s1 \<le> 9 \<and> 0 \<le> digito s2 \<and> digito s2 \<le> 9 \<and>
           length (str_int (digito s1) @ str_int (digito s2)) = 2 \<and>
           (slice_from cs (- 2) = str_int (digito s1) @ str_int (digito s2)) =
             (digit_val (cs ! 9) = digito s1 \<and> digit_val (cs ! 10) = digito s2) \<and>
           validar_cpf x = Inr (digit_val (cs ! 9) = digito s1 \<and> digit_val (cs ! 10) = digito s2)"
proof -
  have dig: "\<And>c. c \<in> set cs \<Longrightarrow> is_digit c"
    unfolding assms(1) by (rule limpar_cpf_digits)
  have len: "length cs = 11" by (rule assms(2))
  have d9: "is_digit (cs ! 9)" and d10: "is_digit (cs ! 10)"
    by (rule dig, rule nth_mem, simp add: len)+
  let ?s1 = "spec_sum1 (digits cs)" and ?s2 = "spec_sum2 (digits cs)"
  have s: "soma1 cs = Inr ?s1" "soma2 cs = Inr ?s2"
    by (rule soma1_ok [OF len dig], assumption, rule soma2_ok [OF len dig], assumption)
  have b: "0 \<le> digito ?s1 \<and> digito ?s1 \<le> 9" "0 \<le> digito ?s2 \<and> digito ?s2 \<le> 9"
    by (rule digito_bounds)+
  have l: "length (str_int (digito ?s1) @ str_int (digito ?s2)) = 2"
    using b by (simp add: str_int_digit)
  have c: "(slice_from cs (- 2) = str_int (digito ?s1) @ str_int (digito ?s2)) =
             (digit_val (cs ! 9) = digito ?s1 \<and> digit_val (cs ! 10) = digito ?s2)"
    by (rule format_compare [OF len d9 d10])
  have n: "cs \<noteq> replicate 11 (cs ! 0)"
    using assms(2,3) by (simp add: all_identical_replicate)
  have dv: "digits cs ! 9 = digit_val (cs ! 9)" "digits cs ! 10 = digit_val (cs ! 10)"
    by (simp_all add: digits_def len)
  have v: "validar_cpf x = Inr (digit_val (cs ! 9) = digito ?s1 \<and> digit_val (cs ! 10) = digito ?s2)"
    using n len dv unfolding validar_cpf_closed assms(1) [symmetric]
    by (simp add: valid_digits_def digito_check_digit)
  show ?thesis using s b l c v by blast
qed

theorem C10_check_digits_witness:
  "''52998224725'' = limpar_cpf ''529.982.247-25'' \<and> length ''52998224725'' = 11 \<and>
   \<not> all_identical ''52998224725'' \<and> soma1 ''52998224725'' = Inr 295 \<and>
   soma2 ''52998224725'' = Inr 347 \<and> digito 295 = 2 \<and> digito 347 = 5 \<and>
   str_int (digito 295) @ str_int (digito 347) = ''25'' \<and>
   (\<exists>s1 s2. soma1 ''52998224725'' = Inr s1 \<and> soma2 ''52998224725'' = Inr s2 \<and>
      length (str_int (digito s1) @ str_int (digito s2)) = 2)"
proof -
  have a: "''52998224725'' = limpar_cpf ''529.982.247-25''" by code_simp
  have b: "length ''52998224725'' = 11" by simp
  have c: "\<not> all_identical ''52998224725''" by (simp add: all_identical_def)
  have s: "soma1 ''52998224725'' = Inr 295" "soma2 ''52998224725'' = Inr 347"
    "digito 295 = 2" "digito 347 = 5" "str_int (digito 295) @ str_int (digito 347) = ''25''"
    by code_simp+
  from C10_check_digits_single_char [OF a b c]
  have "\<exists>s1 s2. soma1 ''52998224725'' = Inr s1 \<and> soma2 ''52998224725'' = Inr s2 \<and>
      length (str_int (digito s1) @ str_int (digito s2)) = 2"
    by blast
  then show ?thesis using a b c s by simp
qed

subsection \<open>Single-digit changes\<close>

text \<open>
  Changing the digit at position \<open>p\<close> of the first nine moves the first sum by the
  difference times \<open>10 - p\<close> and the second by the difference times \<open>11 - p\<close>. Two sums
  give the same check digit only when they are congruent modulo 11 or their remainders are
  0 and 1; for both check digits to survive a change, the position must be 0 or 5.
\<close>

lemma check_digit_eq_mod:
  assumes "check_digit a = check_digit b"
  shows "(a - b) mod 11 \<le> 1 \<or> (a - b) mod 11 = 10"
proof -
  have ra: "0 \<le> a mod 11" "a mod 11 < 11" and rb: "0 \<le> b mod 11" "b mod 11 < 11"
    by simp_all
  from assms have "a mod 11 - b mod 11 \<in> {0, 1, - 1}"
    using ra rb unfolding check_digit_def Let_def
    by (simp split: if_splits) arith+
  moreover have "(a - b) mod 11 = (a mod 11 - b mod 11) mod 11"
    by (simp add: mod_diff_eq)
  ultimately show ?thesis by auto
qed

lemma int_range_cases:
  "- 9 \<le> (k::int) \<Longrightarrow> k \<le> 9 \<Longrightarrow>
   k \<in> {- 9, - 8, - 7, - 6, - 5, - 4, - 3, - 2, - 1, 0, 1, 2, 3, 4, 5, 6, 7, 8, 9}"
  by simp arith

lemma weight_collision:
  assumes "(k * w) mod 11 \<le> 1 \<or> (k * w) mod 11 = 10"
    and "(k * (w + 1)) mod 11 \<le> 1 \<or> (k * (w + 1)) mod 11 = 10"
    and "- 9 \<le> k" "k \<le> 9" and "w \<in> {2, 3, 4, 6, 7, 8, 9}"
  shows "k = (0::int)"
proof -
  have k: "k \<in> {- 9, - 8, - 7, - 6, - 5, - 4, - 3, - 2, - 1, 0, 1, 2, 3, 4, 5, 6, 7, 8, 9}"
    using assms(3,4) by (rule int_range_cases)
  show ?thesis
    using assms(1,2,5) k by (elim insertE emptyE; simp)
qed

lemma spec_sum1_update:
  assumes "length d = 11" "p < 9"
  shows "spec_sum1 (d[p := e]) = spec_sum1 d + (e - d ! p) * (10 - int p)"
proof -
  from assms(2) have p: "p \<in> {0, 1, 2, 3, 4, 5, 6, 7, 8}" by simp arith
  from assms(1) obtain d0 d1 d2 d3 d4 d5 d6 d7 d8 d9 d10
    where d: "d = [d0, d1, d2, d3, d4, d5, d6, d7, d8, d9, d10]"
    by (auto simp add: numeral_eq_Suc length_Suc_conv)
  show ?thesis
    using p unfolding d spec_sum1_def upt_9
    by (elim insertE emptyE; simp add: algebra_simps)
qed

lemma spec_sum2_update:
  assumes "length d = 11" "p < 10"
  shows "spec_sum2 (d[p := e]) = spec_sum2 d + (e - d ! p) * (11 - int p)"
proof -
  from assms(2) have p: "p \<in> {0, 1, 2, 3, 4, 5, 6, 7, 8, 9}" by simp arith
  from assms(1) obtain d0 d1 d2 d3 d4 d5 d6 d7 d8 d9 d10
    where d: "d = [d0, d1, d2, d3, d4, d5, d6, d7, d8, d9, d10]"
    by (auto simp add: numeral_eq_Suc length_Suc_conv)
  show ?thesis
    using p unfolding d spec_sum2_def upt_10
    by (elim insertE emptyE; simp add: algebra_simps)
qed

lemma spec_sum1_update_ge: "length d = 11 \<Longrightarrow> 9 \<le> p \<Longrightarrow> spec_sum1 (d[p := e]) = spec_sum1 d"
  by (simp add: spec_sum1_def upt_9)

lemma spec_sum2_update_ge: "length d = 11 \<Longrightarrow> 10 \<le> p \<Longrightarrow> spec_sum2 (d[p := e]) = spec_sum2 d"
  by (simp add: spec_sum2_def upt_10)

lemma digits_update: "digits (x[p := v]) = (digits x)[p := digit_val v]"
  by (simp add: digits_def map_update)

lemma mutation_rejected:
  assumes valid: "valid_digits x" and dig: "list_all is_digit x"
    and p: "p < 11" "p \<noteq> 0" "p \<noteq> 5" and v: "is_digit v" "v \<noteq> x ! p"
  shows "\<not> valid_digits (x[p := v])"
proof
  assume valid': "valid_digits (x[p := v])"
  let ?d = "digits x" and ?e = "digit_val v"
  have len: "length x = 11" and len_d: "length ?d = 11"
    using valid by (simp_all add: valid_digits_def digits_def)
  have c1: "?d ! 9 = check_digit (spec_sum1 ?d)" and c2: "?d ! 10 = check_digit (spec_sum2 ?d)"
    using valid by (simp_all add: valid_digits_def)
  have c1': "?d[p := ?e] ! 9 = check_digit (spec_sum1 (?d[p := ?e]))"
    and c2': "?d[p := ?e] ! 10 = check_digit (spec_sum2 (?d[p := ?e]))"
    using valid' by (simp_all add: valid_digits_def digits_update)
  have xp: "is_digit (x ! p)"
    using dig p(1) len by (simp add: list_all_length)
  have dp: "?d ! p = digit_val (x ! p)"
    using p(1) len by (simp add: digits_def)
  have ne: "?e \<noteq> ?d ! p"
    using digit_val_inj [OF v(1) xp] v(2) dp by auto
  have b: "- 9 \<le> ?e - ?d ! p" "?e - ?d ! p \<le> 9"
    using digit_val_bounds [OF v(1)] digit_val_bounds [OF xp] dp by simp_all
  consider "p = 10" | "p = 9" | "p < 9" using p(1) by arith
  then show False
  proof cases
    case 1
    then have "?e = check_digit (spec_sum2 ?d)"
      using c2' len_d by (simp add: spec_sum2_update_ge)
    with c2 ne 1 show False by simp
  next
    case 2
    then have "?e = check_digit (spec_sum1 ?d)"
      using c1' len_d by (simp add: spec_sum1_update_ge)
    with c1 ne 2 show False by simp
  next
    case 3
    then have p10: "p < 10" by simp
    have "check_digit (spec_sum1 ?d + (?e - ?d ! p) * (10 - int p)) = check_digit (spec_sum1 ?d)"
      using c1 c1' 3 len_d by (simp add: spec_sum1_update [OF len_d 3])
    from check_digit_eq_mod [OF this]
    have m1: "((?e - ?d ! p) * (10 - int p)) mod 11 \<le> 1 \<or>
              ((?e - ?d ! p) * (10 - int p)) mod 11 = 10"
      by simp
    have "check_digit (spec_sum2 ?d + (?e - ?d ! p) * (11 - int p)) = check_digit (spec_sum2 ?d)"
      using c2 c2' 3 len_d by (simp add: spec_sum2_update [OF len_d p10])
    from check_digit_eq_mod [OF this]
    have m2: "((?e - ?d ! p) * (10 - int p + 1)) mod 11 \<le> 1 \<or>
              ((?e - ?d ! p) * (10 - int p + 1)) mod 11 = 10"
      by (simp add: algebra_simps)
    have w: "10 - int p \<in> {2, 3, 4, 6, 7, 8, 9}"
      using 3 p(2,3) by simp arith
    from weight_collision [OF m1 m2 b w] ne show False by simp
  qed
qed

lemma update_digits_kept: "list_all is_digit x \<Longrightarrow> is_digit v \<Longrightarrow> c \<in> set (x[p := v]) \<Longrightarrow> is_digit c"
  using set_update_subset_insert [of x p v] by (auto simp add: list_all_iff)

lemma valid_of_accepted:
  "list_all is_digit x \<Longrightarrow> validar_cpf x = Inr True \<Longrightarrow> valid_digits x"
  by (simp add: validar_cpf_closed limpar_cpf_filter list_all_iff)

lemma sensitive_position:
  assumes "list_all is_digit x" "validar_cpf x = Inr True" "p < 11" "p \<noteq> 0" "p \<noteq> 5"
  shows "sensitive x p"
proof -
  have valid: "valid_digits x" using assms(1,2) by (rule valid_of_accepted)
  have "validar_cpf (x[p := v]) = Inr False" if "is_digit v" "v \<noteq> x ! p" for v
  proof -
    have "validar_cpf (x[p := v]) = Inr (valid_digits (x[p := v]))"
      by (rule validar_cpf_normalized) (rule update_digits_kept [OF assms(1) that(1)])
    with mutation_rejected [OF valid assms(1,3,4,5) that] show ?thesis by simp
  qed
  then show ?thesis
    unfolding sensitive_def list_all_iff by (auto simp add: is_digit_def)
qed

lemma filter_length_mono:
  "(\<And>a. a \<in> set xs \<Longrightarrow> Q a \<Longrightarrow> P a) \<Longrightarrow> length (filter Q xs) \<le> length (filter P xs)"
  by (induction xs) auto

lemma nine_sensitive_positions:
  assumes "list_all is_digit x" "validar_cpf x = Inr True"
  shows "9 \<le> length (sensitive_positions x)"
proof -
  have "length (filter (\<lambda>p. p \<noteq> 0 \<and> p \<noteq> 5) [0..<11]) \<le> length (filter (sensitive x) [0..<11])"
    by (rule filter_length_mono) (simp add: sensitive_position [OF assms])
  moreover have "length (filter (\<lambda>p. p \<noteq> 0 \<and> p \<noteq> (5::nat)) [0..<11]) = 9"
    by (simp add: upt_11)
  ultimately show ?thesis by (simp add: sensitive_positions_def)
qed

lemma check_positions_rejected:
  assumes dig: "list_all is_digit x" and acc: "validar_cpf x = Inr True"
    and ab: "is_digit a" "is_digit b" "a \<noteq> x ! 9 \<or> b \<noteq> x ! 10"
  shows "validar_cpf (x[9 := a, 10 := b]) = Inr False"
proof -
  have valid: "valid_digits x" using dig acc by (rule valid_of_accepted)
  have len: "length x = 11" using valid by (simp add: valid_digits_def)
  have len_d: "length (digits x) = 11" using len by (simp add: digits_def)
  have d: "\<And>c. c \<in> set (x[9 := a, 10 := b]) \<Longrightarrow> is_digit c"
    using dig ab(1,2) set_update_subset_insert [of "x[9 := a]" 10 b]
      set_update_subset_insert [of x 9 a]
    by (auto simp add: list_all_iff)
  have v: "validar_cpf (x[9 := a, 10 := b]) = Inr (valid_digits (x[9 := a, 10 := b]))"
    by (rule validar_cpf_normalized) (rule d)
  have "\<not> valid_digits (x[9 := a, 10 := b])"
  proof (cases "a = x ! 9")
    case True
    then have "x[9 := a, 10 := b] = x[10 := b]" by simp
    moreover from True ab(3) have "b \<noteq> x ! 10" by simp
    ultimately show ?thesis
      using mutation_rejected [OF valid dig _ _ _ ab(2), of 10] by simp
  next
    case False
    have x9: "is_digit (x ! 9)" using dig len by (simp add: list_all_length)
    have "digit_val a \<noteq> digit_val (x ! 9)"
      using digit_val_inj [OF ab(1) x9] False by auto
    moreover have "digits x ! 9 = check_digit (spec_sum1 (digits x))"
      using valid by (simp add: valid_digits_def)
    moreover have "digits x ! 9 = digit_val (x ! 9)" using len by (simp add: digits_def)
    moreover have "spec_sum1 (digits (x[9 := a, 10 := b])) = spec_sum1 (digits x)"
      using len_d by (simp add: digits_update spec_sum1_update_ge)
    moreover have "digits (x[9 := a, 10 := b]) ! 9 = digit_val a"
      using len by (simp add: digits_def)
    ultimately show ?thesis by (simp add: valid_digits_def)
  qed
  with v show ?thesis by simp
qed

lemma detected_tampering_rejected:
  assumes "list_all is_digit y"
    and "check_digit (spec_sum1 (digits y)) \<noteq> digits y ! 9 \<or>
         check_digit (spec_sum2 (digits y)) \<noteq> digits y ! 10"
  shows "validar_cpf y = Inr False"
proof -
  have "validar_cpf y = Inr (valid_digits y)"
    using assms(1) by (intro validar_cpf_normalized) (simp add: list_all_iff)
  with assms(2) show ?thesis by (auto simp add: valid_digits_def)
qed

lemma filter_two_excluded:
  assumes "\<not> P 0" "\<not> P (5::nat)"
  shows "length (filter P [0..<11]) \<le> 9"
proof -
  have "length (filter P [0..<11]) \<le> length (filter (\<lambda>p. p \<noteq> 0 \<and> p \<noteq> 5) [0..<11])"
  proof (rule filter_length_mono)
    fix a assume "P a"
    with assms show "a \<noteq> 0 \<and> a \<noteq> 5" by metis
  qed
  also have "\<dots> = 9" by (simp add: upt_11)
  finally show ?thesis .
qed

text \<open>
  Claim C3, as amended. For every normalized CPF that \<open>validar_cpf\<close> accepts, replacing
  the digit at any position other than 0 and 5 by a different digit gives a rejected
  identifier, so at least 9 of the 11 positions are sensitive; every change confined to the
  two check-digit positions is rejected; and a tampering of the first nine digits after
  which a recomputed check digit differs from the stored one is rejected. As the claim was
  stated, with at least 10 sensitive positions, it fails: \<open>"00022937900"\<close> is accepted, and
  so are \<open>"10022937900"\<close> and \<open>"00022037900"\<close>, which differ from it at position 0 and at
  position 5.
\<close>

theorem C3_single_digit_changes:
  assumes "list_all is_digit x" "validar_cpf x = Inr True"
  shows "(\<forall>p < 11. p \<noteq> 0 \<and> p \<noteq> 5 \<longrightarrow> sensitive x p) \<and>
         9 \<le> length (sensitive_positions x) \<and>
         (\<forall>a b. is_digit a \<and> is_digit b \<and> (a \<noteq> x ! 9 \<or> b \<noteq> x ! 10) \<longrightarrow>
            validar_cpf (x[9 := a, 10 := b]) = Inr False) \<and>
         (\<forall>y. length y = 11 \<and> list_all is_digit y \<and> y ! 9 = x ! 9 \<and> y ! 10 = x ! 10 \<and>
              (check_digit (spec_sum1 (digits y)) \<noteq> digits x ! 9 \<or>
               check_digit (spec_sum2 (digits y)) \<noteq> digits x ! 10) \<longrightarrow>
            validar_cpf y = Inr False)"
proof -
  have len: "length x = 11"
    using valid_of_accepted [OF assms] by (simp add: valid_digits_def)
  have a: "\<forall>p < 11. p \<noteq> 0 \<and> p \<noteq> 5 \<longrightarrow> sensitive x p"
    using sensitive_position [OF assms] by blast
  have b: "9 \<le> length (sensitive_positions x)"
    using assms by (rule nine_sensitive_positions)
  have c: "\<forall>a b. is_digit a \<and> is_digit b \<and> (a \<noteq> x ! 9 \<or> b \<noteq> x ! 10) \<longrightarrow>
            validar_cpf (x[9 := a, 10 := b]) = Inr False"
    using check_positions_rejected [OF assms] by blast
  have d: "validar_cpf y = Inr False"
    if "length y = 11 \<and> list_all is_digit y \<and> y ! 9 = x ! 9 \<and> y ! 10 = x ! 10 \<and>
        (check_digit (spec_sum1 (digits y)) \<noteq> digits x ! 9 \<or>
         check_digit (spec_sum2 (digits y)) \<noteq> digits x ! 10)" for y
  proof -
    from that len have "digits y ! 9 = digits x ! 9" "digits y ! 10 = digits x ! 10"
      by (simp_all add: digits_def)
    with that show ?thesis
      by (intro detected_tampering_rejected) simp_all
  qed
  show ?thesis using a b c d by blast
qed

theorem C3_single_digit_changes_witness:
  "list_all is_digit ''52998224725'' \<and> validar_cpf ''52998224725'' = Inr True \<and>
   sensitive ''52998224725'' 3 \<and> 9 \<le> length (sensitive_positions ''52998224725'') \<and>
   validar_cpf (''52998224725''[9 := CHR ''3'', 10 := CHR ''5'']) = Inr False \<and>
   check_digit (spec_sum1 (digits ''42998224725'')) \<noteq> digits ''52998224725'' ! 9 \<and>
   validar_cpf ''42998224725'' = Inr False"
proof -
  have a: "list_all is_digit ''52998224725''" by (simp add: is_digit_def)
  have b: "validar_cpf ''52998224725'' = Inr True" by code_simp
  note t = C3_single_digit_changes [OF a b]
  have s: "sensitive ''52998224725'' 3"
    using t [THEN conjunct1, rule_format, of 3] by simp
  have n: "9 \<le> length (sensitive_positions ''52998224725'')"
    using t [THEN conjunct2, THEN conjunct1] .
  have e: "is_digit CHR ''3'' \<and> is_digit CHR ''5'' \<and>
           (CHR ''3'' \<noteq> ''52998224725'' ! 9 \<or> CHR ''5'' \<noteq> ''52998224725'' ! 10)"
    by (simp add: is_digit_def)
  have c: "validar_cpf (''52998224725''[9 := CHR ''3'', 10 := CHR ''5'']) = Inr False"
    using t [THEN conjunct2, THEN conjunct2, THEN conjunct1, rule_format, OF e] .
  have d: "check_digit (spec_sum1 (digits ''42998224725'')) \<noteq> digits ''52998224725'' ! 9"
    by code_simp
  have f: "length ''42998224725'' = 11 \<and> list_all is_digit ''42998224725'' \<and>
     ''42998224725'' ! 9 = ''52998224725'' ! 9 \<and> ''42998224725'' ! 10 = ''52998224725'' ! 10 \<and>
     (check_digit (spec_sum1 (digits ''42998224725'')) \<noteq> digits ''52998224725'' ! 9 \<or>
      check_digit (spec_sum2 (digits ''42998224725'')) \<noteq> digits ''52998224725'' ! 10)"
    using d by (simp add: is_digit_def)
  have g: "validar_cpf ''42998224725'' = Inr False"
    using t [THEN conjunct2, THEN conjunct2, THEN conjunct2, rule_format, OF f] .
  show ?thesis using a b s n c d g by simp
qed

theorem C3_ten_positions_counterexample:
  "list_all is_digit ''00022937900'' \<and> validar_cpf ''00022937900'' = Inr True \<and>
   ''00022937900''[0 := CHR ''1''] = ''10022937900'' \<and>
   validar_cpf ''10022937900'' = Inr True \<and>
   ''00022937900''[5 := CHR ''0''] = ''00022037900'' \<and>
   validar_cpf ''00022037900'' = Inr True \<and>
   \<not> sensitive ''00022937900'' 0 \<and> \<not> sensitive ''00022937900'' 5 \<and>
   \<not> 10 \<le> length (sensitive_positions ''00022937900'')"
proof -
  have d: "list_all is_digit ''00022937900''" by (simp add: is_digit_def)
  have v: "validar_cpf ''00022937900'' = Inr True" "validar_cpf ''10022937900'' = Inr True"
    "validar_cpf ''00022037900'' = Inr True"
    by code_simp+
  have u: "''00022937900''[0 := CHR ''1''] = ''10022937900''"
    "''00022937900''[5 := CHR ''0''] = ''00022037900''"
    by simp_all
  have s0: "\<not> sensitive ''00022937900'' 0"
    unfolding sensitive_def by (simp add: v)
  have s5: "\<not> sensitive ''00022937900'' 5"
    unfolding sensitive_def by (simp add: v)
  have "length (sensitive_positions ''00022937900'') \<le> 9"
    unfolding sensitive_positions_def using s0 s5 by (rule filter_two_excluded)
  then have n: "\<not> 10 \<le> length (sensitive_positions ''00022937900'')" by simp
  show ?thesis using d v u s0 s5 n by simp
qed

end
